theory Spec2Isabelle
  imports Complex_Main "HOL-Library.List_Lexorder"
begin

section \<open>Strings\<close>

text \<open>
  A JavaScript string is a sequence of UTF-16 code units. Every character the parser
  looks at is in the Basic Multilingual Plane, so a string is modelled as the list of its
  code units, each a natural number. \<open>js\<close> turns an ASCII literal into such a list.
\<close>

type_synonym jstring = "nat list"

definition js :: "string \<Rightarrow> jstring" where
  "js s = map of_char s"

text \<open>
  \<open>String.prototype.trim\<close> and the regular expression class \<open>\s\<close> use the same set
  of code units: tab, line feed, vertical tab, form feed, carriage return, space,
  no-break space, U+1680, U+2000 to U+200A, U+2028, U+2029, U+202F, U+205F, U+3000 and
  U+FEFF.
\<close>

definition is_ws :: "nat \<Rightarrow> bool" where
  "is_ws c = (c \<in> {9, 10, 11, 12, 13, 32, 160, 5760, 8232, 8233, 8239, 8287, 12288, 65279}
     \<or> (8192 \<le> c \<and> c \<le> 8202))"

definition trim :: "jstring \<Rightarrow> jstring" where
  "trim s = rev (dropWhile is_ws (rev (dropWhile is_ws s)))"

text \<open>
  \<open>s.split(sep)\<close> for a separator string: the pieces between the occurrences of \<open>sep\<close>,
  found from left to right without overlap. An empty separator splits into single code
  units.
\<close>

function split_js :: "jstring \<Rightarrow> jstring \<Rightarrow> jstring list" where
  "split_js sep [] = (if sep = [] then [] else [[]])"
| "split_js sep (c # cs) =
     (if sep = [] then [c] # split_js sep cs
      else if take (length sep) (c # cs) = sep
        then [] # split_js sep (drop (length sep) (c # cs))
      else (case split_js sep cs of
              [] \<Rightarrow> [[c]]
            | p # ps \<Rightarrow> (c # p) # ps))"
  by pat_completeness auto
termination
  by (relation "measure (\<lambda>(sep, s). length s)") auto

section \<open>Equation splitter (parser.ts)\<close>

text \<open>
  \<open>normalizeArrow\<close> replaces every match of
  \<^verbatim>\<open>/U+21CC|<=>|U+27F7|U+21D2|U+2192|<-+>|=+>|-+>/g\<close> by \<^verbatim>\<open>->\<close>. \<open>arrow_match s\<close>
  is the length of the match that starts at the head of \<open>s\<close>, trying the alternatives in
  the order of the pattern; a greedy run \<open>x+\<close> followed by \<^verbatim>\<open>>\<close> matches exactly when
  the maximal run is non-empty and the code unit after it is \<^verbatim>\<open>>\<close>.
\<close>

definition run_then_gt :: "nat \<Rightarrow> jstring \<Rightarrow> nat option" where
  "run_then_gt x s =
     (let k = length (takeWhile (\<lambda>c. c = x) s) in
      if 0 < k \<and> take 1 (drop k s) = [62] then Some (k + 1) else None)"

definition arrow_match :: "jstring \<Rightarrow> nat option" where
  "arrow_match s =
     (if take 1 s = [8652] then Some 1
      else if take 3 s = [60, 61, 62] then Some 3
      else if take 1 s = [10231] then Some 1
      else if take 1 s = [8658] then Some 1
      else if take 1 s = [8594] then Some 1
      else if take 1 s = [60] \<and> run_then_gt 45 (drop 1 s) \<noteq> None
        then map_option Suc (run_then_gt 45 (drop 1 s))
      else if run_then_gt 61 s \<noteq> None then run_then_gt 61 s
      else run_then_gt 45 s)"

definition arrow :: jstring where
  "arrow = [45, 62]"

function normalizeArrow :: "jstring \<Rightarrow> jstring" where
  "normalizeArrow [] = []"
| "normalizeArrow (c # cs) =
     (case arrow_match (c # cs) of
        Some n \<Rightarrow> arrow @ normalizeArrow (drop (max 1 n) (c # cs))
      | None \<Rightarrow> c # normalizeArrow cs)"
  by pat_completeness auto
termination
  by (relation "measure length") auto

definition chunks :: "jstring \<Rightarrow> jstring list" where
  "chunks side = filter (\<lambda>s. s \<noteq> []) (map trim (split_js [43] side))"

definition splitEquation :: "jstring \<Rightarrow> (jstring list \<times> jstring list) option" where
  "splitEquation eqn =
     (case split_js arrow (normalizeArrow eqn) of
        [lhs, rhs] \<Rightarrow> Some (chunks lhs, chunks rhs)
      | _ \<Rightarrow> None)"

section \<open>Formula tokenizer (parser.ts)\<close>

text \<open>
  JavaScript numbers are modelled as unbounded integers: \<open>parseInt\<close>, sums and
  products are exact on integers below \<open>2 ^ 53\<close>.
\<close>

datatype token = Dot | Paren jstring | Elem jstring int | Num int

datatype error = TypeError | ZeroDenominator

definition is_digit :: "nat \<Rightarrow> bool" where
  "is_digit c = (48 \<le> c \<and> c \<le> 57)"

definition is_upper :: "nat \<Rightarrow> bool" where
  "is_upper c = (65 \<le> c \<and> c \<le> 90)"

definition is_lower :: "nat \<Rightarrow> bool" where
  "is_lower c = (97 \<le> c \<and> c \<le> 122)"

definition is_bracket :: "nat \<Rightarrow> bool" where
  "is_bracket c = (c \<in> {40, 41, 91, 93, 123, 125})"

definition parseInt10 :: "jstring \<Rightarrow> int" where
  "parseInt10 ds = foldl (\<lambda>a d. 10 * a + int (d - 48)) 0 ds"

function tokenize :: "jstring \<Rightarrow> token list" where
  "tokenize [] = []"
| "tokenize (c # cs) =
     (if c = 183 \<or> c = 46 then Dot # tokenize cs
      else if is_bracket c then Paren [c] # tokenize cs
      else if is_upper c then
        (let sym = (if cs \<noteq> [] \<and> is_lower (hd cs) then [c, hd cs] else [c]);
             rest = (if cs \<noteq> [] \<and> is_lower (hd cs) then tl cs else cs);
             digits = takeWhile is_digit rest
         in Elem sym (if digits \<noteq> [] then parseInt10 digits else 1)
              # tokenize (dropWhile is_digit rest))
      else if is_digit c then
        Num (parseInt10 (c # takeWhile is_digit cs)) # tokenize (dropWhile is_digit cs)
      else tokenize cs)"
  by pat_completeness auto
termination
proof (relation "measure length")
  fix c :: nat and cs x xa xb
  assume "xa = (if cs \<noteq> [] \<and> is_lower (hd cs) then tl cs else cs)"
  then have "length xa \<le> length cs" by simp
  moreover have "length (dropWhile is_digit xa) \<le> length xa"
    by (rule length_dropWhile_le)
  ultimately show "(dropWhile is_digit xa, c # cs) \<in> measure length" by simp
next
  fix c :: nat and cs
  have "length (dropWhile is_digit cs) \<le> length cs" by (rule length_dropWhile_le)
  then show "(dropWhile is_digit cs, c # cs) \<in> measure length" by simp
qed auto

definition tokenizeFormula :: "jstring \<Rightarrow> token list" where
  "tokenizeFormula formula = tokenize (filter (\<lambda>c. \<not> is_ws c) formula)"

section \<open>Formula evaluator (parser.ts)\<close>

text \<open>
  A \<open>Map<string, number>\<close> is an association list in insertion order: \<open>set\<close> on a
  present key replaces its value in place, on a new key it appends the entry.
\<close>

type_synonym counts = "(jstring \<times> int) list"

definition get_or0 :: "counts \<Rightarrow> jstring \<Rightarrow> int" where
  "get_or0 m k = (case map_of m k of None \<Rightarrow> 0 | Some v \<Rightarrow> v)"

fun map_set :: "counts \<Rightarrow> jstring \<Rightarrow> int \<Rightarrow> counts" where
  "map_set [] k v = [(k, v)]"
| "map_set ((k', v') # m) k v = (if k' = k then (k, v) # m else (k', v') # map_set m k v)"

definition pushCounts :: "counts \<Rightarrow> jstring \<Rightarrow> int \<Rightarrow> counts" where
  "pushCounts into elem n = map_set into elem (get_or0 into elem + n)"

text \<open>
  The stack of accumulators has its top (\<open>stack.at(-1)\<close>) at the head of the list and its
  root (\<open>stack[0]\<close>) last. On an empty stack \<open>stack.at(-1)\<close> and \<open>stack.pop()\<close> are
  \<open>undefined\<close>, and calling a method on \<open>undefined\<close> throws a \<open>TypeError\<close>.
  \<open>parenStack\<close> is only written, never read for a decision, and is left out.
\<close>

fun pushTop :: "counts list \<Rightarrow> jstring \<Rightarrow> int \<Rightarrow> error + counts list" where
  "pushTop [] elem n = Inl TypeError"
| "pushTop (t # stack) elem n = Inr (pushCounts t elem n # stack)"

definition addScaled :: "counts \<Rightarrow> counts \<Rightarrow> int \<Rightarrow> counts" where
  "addScaled t grp mult = foldl (\<lambda>acc (k, val). pushCounts acc k (val * mult)) t grp"

fun mergeScaled :: "counts list \<Rightarrow> counts \<Rightarrow> int \<Rightarrow> error + counts list" where
  "mergeScaled stack [] mult = Inr stack"
| "mergeScaled [] (e # es) mult = Inl TypeError"
| "mergeScaled (t # stack) (e # es) mult = Inr (addScaled t (e # es) mult # stack)"

definition openers :: "jstring set" where
  "openers = {[40], [91], [123]}"

definition closers :: "jstring set" where
  "closers = {[41], [93], [125]}"

definition has_open :: "token \<Rightarrow> bool" where
  "has_open u = (case u of Paren v \<Rightarrow> (\<exists>c \<in> set v. c \<in> {40, 91, 123}) | _ \<Rightarrow> False)"

definition has_close :: "token \<Rightarrow> bool" where
  "has_close u = (case u of Paren v \<Rightarrow> (\<exists>c \<in> set v. c \<in> {41, 93, 125}) | _ \<Rightarrow> False)"

text \<open>
  The forward scan for the group after a standalone integer: the number of tokens up to
  and including the close that brings the depth back to zero, or all of them.
\<close>

fun scan_group :: "int \<Rightarrow> token list \<Rightarrow> nat" where
  "scan_group depth [] = 0"
| "scan_group depth (u # us) =
     (if has_open u then Suc (scan_group (depth + 1) us)
      else if has_close u then (if depth - 1 = 0 then 1 else Suc (scan_group (depth - 1) us))
      else Suc (scan_group depth us))"

text \<open>
  The value of a nested \<open>tokensToCounts\<close> call where its \<open>entries()\<close> are read: the root
  of the final stack, or a \<open>TypeError\<close> when the call returned \<open>undefined\<close>.
\<close>

definition sub_entries :: "error + counts list \<Rightarrow> error + counts" where
  "sub_entries r = (case r of Inl e \<Rightarrow> Inl e | Inr [] \<Rightarrow> Inl TypeError
     | Inr (t # stack) \<Rightarrow> Inr (last (t # stack)))"

text \<open>
  The look-ahead \<open>nxt && nxt.type === "num"\<close>: the value of the next token when it is a
  standalone integer, and the tokens after it.
\<close>

definition next_num :: "token list \<Rightarrow> (int \<times> token list) option" where
  "next_num ts = (case ts of Num n # ts' \<Rightarrow> Some (n, ts') | _ \<Rightarrow> None)"

text \<open>
  \<open>loop stack ts\<close> is the \<open>while\<close> loop of \<open>tokensToCounts\<close> started with the tokens
  \<open>ts\<close> still to read; it returns the final stack.
\<close>

function (sequential) loop :: "counts list \<Rightarrow> token list \<Rightarrow> error + counts list" where
  "loop stack [] = Inr stack"
| "loop stack (Elem symb n # ts) =
     (case pushTop stack symb n of Inl e \<Rightarrow> Inl e | Inr stack' \<Rightarrow> loop stack' ts)"
| "loop stack (Paren v # ts) =
     (if v \<in> openers then loop ([] # stack) ts
      else if v \<in> closers then
        (case stack of
           [] \<Rightarrow> Inl TypeError
         | grp # stack' \<Rightarrow>
             (case next_num ts of
                Some (mult, ts') \<Rightarrow>
                  (case mergeScaled stack' grp mult of
                     Inl e \<Rightarrow> Inl e | Inr stack'' \<Rightarrow> loop stack'' ts')
              | None \<Rightarrow>
                  (case mergeScaled stack' grp 1 of
                     Inl e \<Rightarrow> Inl e | Inr stack'' \<Rightarrow> loop stack'' ts)))
      else loop stack ts)"
| "loop stack (Dot # ts) =
     (case next_num ts of
        Some (N, ts') \<Rightarrow>
          (case sub_entries (loop [[]] ts') of
             Inl e \<Rightarrow> Inl e | Inr sub \<Rightarrow> mergeScaled stack sub N)
      | None \<Rightarrow> loop stack ts)"
| "loop stack [Num N] = Inr stack"
| "loop stack (Num N # Elem symb n # ts) =
     (case pushTop stack symb (n * N) of Inl e \<Rightarrow> Inl e | Inr stack' \<Rightarrow> loop stack' ts)"
| "loop stack (Num N # Paren v # ts) =
     (if has_open (Paren v) then
        (case sub_entries (loop [[]] (take (scan_group 0 (Paren v # ts)) (Paren v # ts))) of
           Inl e \<Rightarrow> Inl e
         | Inr sub \<Rightarrow>
             (case mergeScaled stack sub N of
                Inl e \<Rightarrow> Inl e
              | Inr stack' \<Rightarrow> loop stack' (drop (scan_group 0 (Paren v # ts)) (Paren v # ts))))
      else loop stack (Paren v # ts))"
| "loop stack (Num N # Dot # ts) = loop stack (Dot # ts)"
| "loop stack (Num N # Num M # ts) = loop stack (Num M # ts)"
  by pat_completeness auto
termination
  by (relation "measure (\<lambda>(stack, ts). length ts)")
    (auto simp: next_num_def split: list.splits token.splits)

text \<open>\<open>tokensToCounts\<close> returns \<open>stack[0]\<close>, which is \<open>undefined\<close> (\<open>None\<close>) on an empty stack.\<close>

definition tokensToCounts :: "token list \<Rightarrow> error + counts option" where
  "tokensToCounts tokens =
     (case loop [[]] tokens of
        Inl e \<Rightarrow> Inl e
      | Inr stack \<Rightarrow> Inr (if stack = [] then None else Some (last stack)))"

text \<open>
  \<open>a.localeCompare(b)\<close> is modelled as the lexicographic order on code units, with which the
  default collation agrees on element symbols (one upper-case letter, then at most one
  lower-case letter). \<open>Array.prototype.sort\<close> is stable, as \<open>sort_key\<close> is.
\<close>

definition countElementsInFormula :: "jstring \<Rightarrow> error + counts" where
  "countElementsInFormula formula =
     (case tokensToCounts (tokenizeFormula formula) of
        Inl e \<Rightarrow> Inl e
      | Inr None \<Rightarrow> Inl TypeError
      | Inr (Some cnts) \<Rightarrow> Inr (sort_key fst cnts))"

text \<open>
  A \<open>Record<string, number>\<close> is the list of its entries (\<open>Object.entries\<close>), whose keys
  are distinct. \<open>sumCounts\<close> adds every entry of every record into one map and returns
  the entries sorted by key.
\<close>

definition sumCounts :: "counts list \<Rightarrow> counts" where
  "sumCounts list =
     sort_key fst
       (foldl (\<lambda>out obj. foldl (\<lambda>out (el, n). map_set out el (get_or0 out el + n)) out obj)
          [] list)"

section \<open>Exact rational solver (solver.ts, the version with fractions)\<close>

text \<open>
  The matrix has one row per element, in sorted order, and one column per species: the
  counts of the left species, then the negated counts of the right species.
  \<open>counts[el] || 0\<close> is \<open>get_or0\<close>. The count function is any function that returns a
  record with integer values. The set of keys is sorted, so which duplicate \<open>remdups\<close>
  keeps does not matter.
\<close>

definition buildElementMatrix ::
  "jstring list \<Rightarrow> jstring list \<Rightarrow> (jstring \<Rightarrow> counts) \<Rightarrow> int list list \<times> jstring list" where
  "buildElementMatrix leftFormulas rightFormulas countFn =
     (let elements = sort (remdups (concat (map (\<lambda>f. map fst (countFn f))
                        (leftFormulas @ rightFormulas))));
          A = map (\<lambda>el. map (\<lambda>f. get_or0 (countFn f) el) leftFormulas
                        @ map (\<lambda>f. - get_or0 (countFn f) el) rightFormulas) elements
      in (A, elements))"

record Frac =
  num :: int
  den :: int

text \<open>
  Euclid's loop runs on the absolute values, where \<open>%\<close> is \<open>mod\<close>; \<open>a || 1\<close> turns a
  zero result into one.
\<close>

function gcd_loop :: "int \<Rightarrow> int \<Rightarrow> int" where
  "gcd_loop a b = (if b = 0 then a else gcd_loop b (a mod b))"
  by pat_completeness auto
termination
  by (relation "measure (\<lambda>(a, b). nat \<bar>b\<bar>)") (auto simp: abs_mod_less)

declare gcd_loop.simps [simp del]

definition gcd_js :: "int \<Rightarrow> int \<Rightarrow> int" where
  "gcd_js a b = (let r = gcd_loop \<bar>a\<bar> \<bar>b\<bar> in if r = 0 then 1 else r)"

text \<open>The quotient \<open>a / gcd(a, b)\<close> is exact, so the division of numbers is \<open>div\<close>.\<close>

definition lcm_js :: "int \<Rightarrow> int \<Rightarrow> int" where
  "lcm_js a b = (a div gcd_js a b) * b"

definition makeFrac :: "int \<Rightarrow> int \<Rightarrow> error + Frac" where
  "makeFrac n d =
     (if d = 0 then Inl ZeroDenominator
      else
        (let n' = (if d < 0 then - n else n);
             d' = (if d < 0 then - d else d)
         in if n' = 0 then Inr \<lparr>num = 0, den = 1\<rparr>
            else (let g = gcd_js n' d' in Inr \<lparr>num = n' div g, den = d' div g\<rparr>)))"

definition fAdd :: "Frac \<Rightarrow> Frac \<Rightarrow> error + Frac" where
  "fAdd a b = makeFrac (num a * den b + num b * den a) (den a * den b)"

definition fSub :: "Frac \<Rightarrow> Frac \<Rightarrow> error + Frac" where
  "fSub a b = makeFrac (num a * den b - num b * den a) (den a * den b)"

definition fMul :: "Frac \<Rightarrow> Frac \<Rightarrow> error + Frac" where
  "fMul a b = makeFrac (num a * num b) (den a * den b)"

definition fDiv :: "Frac \<Rightarrow> Frac \<Rightarrow> error + Frac" where
  "fDiv a b = makeFrac (num a * den b) (den a * num b)"

text \<open>A \<open>for\<close> loop whose body may throw: the first error ends it.\<close>

fun foldE :: "('a \<Rightarrow> 's \<Rightarrow> error + 's) \<Rightarrow> 'a list \<Rightarrow> 's \<Rightarrow> error + 's" where
  "foldE f [] s = Inr s"
| "foldE f (x # xs) s = (case f x s of Inl e \<Rightarrow> Inl e | Inr s' \<Rightarrow> foldE f xs s')"

fun mapE :: "('a \<Rightarrow> error + 'b) \<Rightarrow> 'a list \<Rightarrow> error + 'b list" where
  "mapE f [] = Inr []"
| "mapE f (x # xs) =
     (case f x of
        Inl e \<Rightarrow> Inl e
      | Inr y \<Rightarrow> (case mapE f xs of Inl e \<Rightarrow> Inl e | Inr ys \<Rightarrow> Inr (y # ys)))"

text \<open>
  The state of the elimination: the matrix \<open>B\<close>, the right-hand side \<open>b\<close>, the next pivot
  row and \<open>pivotRowForCol\<close> (\<open>-1\<close> for a column without a pivot).
\<close>

record gauss_state =
  matB :: "Frac list list"
  vecb :: "Frac list"
  prow :: nat
  pivotRowForCol :: "int list"

function find_pivot :: "Frac list list \<Rightarrow> nat \<Rightarrow> nat \<Rightarrow> nat \<Rightarrow> nat" where
  "find_pivot B col m pivot =
     (if pivot < m \<and> num (B ! pivot ! col) = 0 then find_pivot B col m (pivot + 1) else pivot)"
  by pat_completeness auto
termination
  by (relation "measure (\<lambda>(B, col, m, pivot). m - pivot)") auto

declare find_pivot.simps [simp del]

definition swap_rows :: "'a list \<Rightarrow> nat \<Rightarrow> nat \<Rightarrow> 'a list" where
  "swap_rows xs i j = (if i \<noteq> j then xs[i := xs ! j, j := xs ! i] else xs)"

text \<open>
  Normalising the pivot row: \<open>piv\<close> is read once, before the loop over \<open>j\<close> replaces the
  entries of the row.
\<close>

definition normalize_row :: "nat \<Rightarrow> nat \<Rightarrow> nat \<Rightarrow> gauss_state \<Rightarrow> error + gauss_state" where
  "normalize_row nvars col row st =
     (let piv = matB st ! row ! col in
      case foldE (\<lambda>j B. case fDiv (B ! row ! j) piv of
                           Inl e \<Rightarrow> Inl e
                         | Inr q \<Rightarrow> Inr (B[row := (B ! row)[j := q]]))
             [col..<nvars] (matB st) of
        Inl e \<Rightarrow> Inl e
      | Inr B' \<Rightarrow>
          (case fDiv (vecb st ! row) piv of
             Inl e \<Rightarrow> Inl e
           | Inr q \<Rightarrow> Inr (st\<lparr>matB := B', vecb := (vecb st)[row := q]\<rparr>)))"

definition eliminate_row :: "nat \<Rightarrow> nat \<Rightarrow> nat \<Rightarrow> nat \<Rightarrow> gauss_state \<Rightarrow> error + gauss_state" where
  "eliminate_row nvars col row r st =
     (if r = row then Inr st
      else
        (let factor = matB st ! r ! col in
         if num factor = 0 then Inr st
         else
           (case foldE (\<lambda>j B. case fMul factor (B ! row ! j) of
                                Inl e \<Rightarrow> Inl e
                              | Inr p \<Rightarrow>
                                  (case fSub (B ! r ! j) p of
                                     Inl e \<Rightarrow> Inl e
                                   | Inr q \<Rightarrow> Inr (B[r := (B ! r)[j := q]])))
                  [col..<nvars] (matB st) of
              Inl e \<Rightarrow> Inl e
            | Inr B' \<Rightarrow>
                (case fMul factor (vecb st ! row) of
                   Inl e \<Rightarrow> Inl e
                 | Inr p \<Rightarrow>
                     (case fSub (vecb st ! r) p of
                        Inl e \<Rightarrow> Inl e
                      | Inr q \<Rightarrow> Inr (st\<lparr>matB := B', vecb := (vecb st)[r := q]\<rparr>))))))"

function gauss :: "nat \<Rightarrow> nat \<Rightarrow> nat \<Rightarrow> gauss_state \<Rightarrow> error + gauss_state" where
  "gauss m nvars col st =
     (if col < nvars \<and> prow st < m then
        (let pivot = find_pivot (matB st) col m (prow st) in
         if pivot = m then gauss m nvars (col + 1) st
         else
           (let st1 = st\<lparr>matB := swap_rows (matB st) pivot (prow st),
                         vecb := swap_rows (vecb st) pivot (prow st)\<rparr> in
            case normalize_row nvars col (prow st) st1 of
              Inl e \<Rightarrow> Inl e
            | Inr st2 \<Rightarrow>
                (case foldE (eliminate_row nvars col (prow st)) [0..<m] st2 of
                   Inl e \<Rightarrow> Inl e
                 | Inr st3 \<Rightarrow>
                     gauss m nvars (col + 1)
                       (st3\<lparr>pivotRowForCol := (pivotRowForCol st3)[col := int (prow st)],
                            prow := prow st + 1\<rparr>))))
      else Inr st)"
  by pat_completeness auto
termination
  by (relation "measure (\<lambda>(m, nvars, col, st). nvars - col)") auto

declare gauss.simps [simp del]

text \<open>
  \<open>solveRationalForLastColumn\<close>: \<open>None\<close> is \<open>null\<close>. The rows of \<open>A\<close> have the length of
  the first row, as the rows \<open>buildElementMatrix\<close> makes do.
\<close>

definition solveRationalForLastColumn :: "int list list \<Rightarrow> error + Frac list option" where
  "solveRationalForLastColumn A =
     (let m = length A;
          n = (case A of [] \<Rightarrow> 0 | r # _ \<Rightarrow> length r) in
      if n \<le> 1 then Inr None
      else
        (let nvars = n - 1 in
         case mapE (\<lambda>i. mapE (\<lambda>j. makeFrac (A ! i ! j) 1) [0..<nvars]) [0..<m] of
           Inl e \<Rightarrow> Inl e
         | Inr B \<Rightarrow>
             (case mapE (\<lambda>i. makeFrac (- (A ! i ! (n - 1))) 1) [0..<m] of
                Inl e \<Rightarrow> Inl e
              | Inr b \<Rightarrow>
                  (case gauss m nvars 0
                          \<lparr>matB = B, vecb = b, prow = 0,
                           pivotRowForCol = replicate nvars (- 1)\<rparr> of
                     Inl e \<Rightarrow> Inl e
                   | Inr st \<Rightarrow>
                       (case mapE (\<lambda>c. if pivotRowForCol st ! c \<noteq> - 1
                                        then Inr (vecb st ! nat (pivotRowForCol st ! c))
                                        else makeFrac 0 1) [0..<nvars] of
                          Inl e \<Rightarrow> Inl e
                        | Inr x \<Rightarrow>
                            (case makeFrac 1 1 of
                               Inl e \<Rightarrow> Inl e
                             | Inr one \<Rightarrow> Inr (Some (x @ [one]))))))))"

text \<open>\<open>x | 0\<close> is the conversion to a signed 32-bit integer.\<close>

definition to_int32 :: "int \<Rightarrow> int" where
  "to_int32 x = (x + 2147483648) mod 4294967296 - 2147483648"

text \<open>The sanity check of \<open>fracsToIntegerCoeffs\<close>: every row of \<open>A\<close> times \<open>final\<close> is zero.\<close>

definition row_sum :: "int list \<Rightarrow> int list \<Rightarrow> int" where
  "row_sum row final = foldl (\<lambda>s j. s + row ! j * final ! j) 0 [0..<length row]"

definition fracsToIntegerCoeffs ::
  "Frac list \<Rightarrow> nat \<Rightarrow> nat \<Rightarrow> int list list \<Rightarrow> (int list \<times> int list) option" where
  "fracsToIntegerCoeffs fv leftLen rightLen A =
     (if length fv = 0 then None
      else
        (let commonDen = foldl (\<lambda>cd f. lcm_js cd (den f)) 1 fv;
             vec0 = map (\<lambda>f. to_int32 (num f * (commonDen div den f))) fv
         in if list_all (\<lambda>v. v = 0) vec0 then None
            else
              (let neg = length (filter (\<lambda>v. v < 0) vec0);
                   pos = length (filter (\<lambda>v. v > 0) vec0);
                   vec = (if neg > pos then map uminus vec0 else vec0);
                   absVec = map abs vec;
                   g = foldl (\<lambda>acc v. if v \<noteq> 0 then gcd_js acc v else acc)
                         (if hd absVec \<noteq> 0 then hd absVec else 1) absVec;
                   final = map (\<lambda>v. v div g) absVec
               in if list_all (\<lambda>row. row_sum row final = 0) A
                  then Some (take leftLen final, drop leftLen final)
                  else None)))"

record analysis =
  balanceableAllSpecies :: bool
  nullity :: nat
  suggestion :: "(int list \<times> int list) option"

definition analyzeBalanceability ::
  "jstring list \<Rightarrow> jstring list \<Rightarrow> (jstring \<Rightarrow> counts) \<Rightarrow> error + analysis" where
  "analyzeBalanceability leftFormulas rightFormulas countFn =
     (let A = fst (buildElementMatrix leftFormulas rightFormulas countFn) in
      if length A = 0 \<or> (case A of [] \<Rightarrow> 0 | r # _ \<Rightarrow> length r) = 0
      then Inr \<lparr>balanceableAllSpecies = False, nullity = 0, suggestion = None\<rparr>
      else
        (case solveRationalForLastColumn A of
           Inl e \<Rightarrow> Inl e
         | Inr None \<Rightarrow> Inr \<lparr>balanceableAllSpecies = False, nullity = 0, suggestion = None\<rparr>
         | Inr (Some raw) \<Rightarrow>
             (case fracsToIntegerCoeffs raw (length leftFormulas) (length rightFormulas) A of
                None \<Rightarrow> Inr \<lparr>balanceableAllSpecies = False, nullity = 0, suggestion = None\<rparr>
              | Some sg \<Rightarrow>
                  Inr \<lparr>balanceableAllSpecies = True, nullity = 1, suggestion = Some sg\<rparr>)))"

definition solveEquation ::
  "jstring list \<Rightarrow> jstring list \<Rightarrow> (jstring \<Rightarrow> counts) \<Rightarrow> error + (int list \<times> int list) option" where
  "solveEquation leftFormulas rightFormulas countFn =
     (case analyzeBalanceability leftFormulas rightFormulas countFn of
        Inl e \<Rightarrow> Inl e
      | Inr res \<Rightarrow>
          (if \<not> balanceableAllSpecies res \<or> suggestion res = None then Inr None
           else Inr (suggestion res)))"

text \<open>
  The count function the user interface passes is \<open>countElementsInFormula\<close>; where that
  throws, the solver is never entered, and \<open>parserCounts\<close> is the empty record.
\<close>

definition parserCounts :: "jstring \<Rightarrow> counts" where
  "parserCounts f = (case countElementsInFormula f of Inl e \<Rightarrow> [] | Inr c \<Rightarrow> c)"

section \<open>Sign search over a null-space basis (solver.ts, the version with floating point)\<close>







section \<open>Notions of the specification\<close>

text \<open>
  The number of occurrences of the canonical arrow in a string: the positions where
  \<^verbatim>\<open>-\<close> is followed by \<^verbatim>\<open>>\<close>. Two occurrences cannot overlap.
\<close>

fun count_arrows :: "jstring \<Rightarrow> nat" where
  "count_arrows (a # b # cs) = (if a = 45 \<and> b = 62 then 1 else 0) + count_arrows (b # cs)"
| "count_arrows cs = 0"

text \<open>Joining pieces with a separator, the inverse of splitting.\<close>

fun join_js :: "jstring \<Rightarrow> jstring list \<Rightarrow> jstring" where
  "join_js sep [] = []"
| "join_js sep [p] = p"
| "join_js sep (p # q # ps) = p @ sep @ join_js sep (q # ps)"






section \<open>Properties of the equation splitter\<close>

lemma js_simps: "js [] = []" "js (c # cs) = of_char c # js cs"
  by (simp_all add: js_def)

lemmas splitter_defs =
  splitEquation_def js_simps arrow_match_def run_then_gt_def arrow_def chunks_def trim_def
  is_ws_def

lemma split_js_nonempty: "sep \<noteq> [] \<Longrightarrow> split_js sep s \<noteq> []"
  by (induction sep s rule: split_js.induct) (auto split: list.splits)

lemma join_split_js: "sep \<noteq> [] \<Longrightarrow> join_js sep (split_js sep s) = s"
proof (induction sep s rule: split_js.induct)
  case (1 sep)
  then show ?case by simp
next
  case (2 sep c cs)
  show ?case
  proof (cases "take (length sep) (c # cs) = sep")
    case True
    obtain q qs where q: "split_js sep (drop (length sep) (c # cs)) = q # qs"
      using split_js_nonempty [OF "2.prems"] by (meson list.exhaust)
    have "c # cs = sep @ drop (length sep) (c # cs)"
      using True by (metis append_take_drop_id)
    moreover have "join_js sep (q # qs) = drop (length sep) (c # cs)"
      using "2.IH"(2) "2.prems" True q by simp
    ultimately show ?thesis using True "2.prems" q by simp
  next
    case False
    obtain p ps where p: "split_js sep cs = p # ps"
      using split_js_nonempty [OF "2.prems"] by (meson list.exhaust)
    have "join_js sep (p # ps) = cs" using "2.IH"(3) "2.prems" False p by simp
    then have "join_js sep ((c # p) # ps) = c # cs" by (cases ps) auto
    then show ?thesis using False "2.prems" p by simp
  qed
qed

lemma split_js_free: "p \<in> set (split_js [x] s) \<Longrightarrow> x \<notin> set p"
proof (induction s arbitrary: p)
  case Nil
  then show ?case by simp
next
  case (Cons c cs)
  show ?case
  proof (cases "c = x")
    case True
    then show ?thesis using Cons by auto
  next
    case False
    obtain q qs where q: "split_js [x] cs = q # qs"
      using split_js_nonempty [of "[x]" cs] by (cases "split_js [x] cs") auto
    then show ?thesis using Cons False by auto
  qed
qed

lemma count_arrows_gt: "count_arrows (62 # s) = count_arrows s"
  by (cases s) auto

lemma length_split_arrow: "length (split_js arrow s) = Suc (count_arrows s)"
proof (induction s rule: length_induct)
  case (1 s)
  show ?case
  proof (cases s)
    case Nil
    then show ?thesis by (simp add: arrow_def)
  next
    case (Cons c cs)
    show ?thesis
    proof (cases "take 2 (c # cs) = [45, 62]")
      case True
      then obtain r where r: "cs = 62 # r" and c: "c = 45"
        by (cases cs) auto
      have "length (split_js arrow r) = Suc (count_arrows r)"
        using 1 Cons r by simp
      then show ?thesis using Cons r c by (simp add: arrow_def count_arrows_gt)
    next
      case False
      have ih: "length (split_js arrow cs) = Suc (count_arrows cs)"
        using 1 Cons by simp
      obtain p ps where p: "split_js arrow cs = p # ps"
        using ih by (cases "split_js arrow cs") auto
      have "count_arrows (c # cs) = count_arrows cs"
        using False by (cases cs) auto
      then show ?thesis using Cons False ih p by (auto simp: arrow_def)
    qed
  qed
qed

lemma splitEquation_None_iff:
  "(splitEquation s = None) = (count_arrows (normalizeArrow s) \<noteq> 1)"
proof -
  have "length (split_js arrow (normalizeArrow s)) = Suc (count_arrows (normalizeArrow s))"
    by (rule length_split_arrow)
  then show ?thesis
    by (auto simp: splitEquation_def split: list.splits)
qed

lemma splitEquation_Some:
  assumes "splitEquation s = Some (l, r)"
  shows "\<exists>lhs rhs. normalizeArrow s = lhs @ arrow @ rhs \<and> l = chunks lhs \<and> r = chunks rhs"
proof -
  from assms obtain lhs rhs where sp: "split_js arrow (normalizeArrow s) = [lhs, rhs]"
    and l: "l = chunks lhs" and r: "r = chunks rhs"
    by (auto simp: splitEquation_def split: list.splits)
  have "join_js arrow (split_js arrow (normalizeArrow s)) = normalizeArrow s"
    by (rule join_split_js) (simp add: arrow_def)
  then have "normalizeArrow s = lhs @ arrow @ rhs" using sp by simp
  then show ?thesis using l r by blast
qed

lemma chunks_char:
  "chunks side = filter (\<lambda>p. p \<noteq> []) (map trim (split_js [43] side))
   \<and> join_js [43] (split_js [43] side) = side
   \<and> list_all (\<lambda>p. 43 \<notin> set p) (split_js [43] side)"
  using join_split_js [of "[43]" side] split_js_free [of _ 43 side]
  by (auto simp: chunks_def list_all_iff)

lemma split_example_1:
  "splitEquation (js ''C3H8 + O2 -> CO2 + H2O'')
     = Some ([js ''C3H8'', js ''O2''], [js ''CO2'', js ''H2O''])"
  by (simp add: splitter_defs)

lemma split_example_2: "splitEquation (js ''H2 + O2 CO2 + H2O'') = None"
  by (simp add: splitter_defs)

text \<open>
  C4. \<open>splitEquation\<close> is a total function (it cannot throw). It returns \<open>null\<close> exactly
  when the normalised string does not hold exactly one canonical arrow. When it returns
  a pair, the normalised string is the left text, the arrow and the right text, and each
  side of the result is the list of the pieces of its text between the plus signs (joined
  by plus signs the pieces give the text back, and no piece holds a plus sign), each
  trimmed, the empty ones dropped. The two examples of the specification evaluate as
  stated.
\<close>

theorem C4_splitEquation:
  "(\<forall>s. (splitEquation s = None) = (count_arrows (normalizeArrow s) \<noteq> 1))
   \<and> (\<forall>s l r. splitEquation s = Some (l, r) \<longrightarrow>
        (\<exists>lhs rhs. normalizeArrow s = lhs @ arrow @ rhs
           \<and> l = filter (\<lambda>p. p \<noteq> []) (map trim (split_js [43] lhs))
           \<and> r = filter (\<lambda>p. p \<noteq> []) (map trim (split_js [43] rhs))
           \<and> join_js [43] (split_js [43] lhs) = lhs
           \<and> join_js [43] (split_js [43] rhs) = rhs
           \<and> list_all (\<lambda>p. 43 \<notin> set p) (split_js [43] lhs)
           \<and> list_all (\<lambda>p. 43 \<notin> set p) (split_js [43] rhs)))
   \<and> splitEquation (js ''C3H8 + O2 -> CO2 + H2O'')
        = Some ([js ''C3H8'', js ''O2''], [js ''CO2'', js ''H2O''])
   \<and> splitEquation (js ''H2 + O2 CO2 + H2O'') = None"
proof (intro conjI allI impI)
  fix s
  show "(splitEquation s = None) = (count_arrows (normalizeArrow s) \<noteq> 1)"
    by (rule splitEquation_None_iff)
next
  fix s l r
  assume "splitEquation s = Some (l, r)"
  then obtain lhs rhs where "normalizeArrow s = lhs @ arrow @ rhs"
    and "l = chunks lhs" and "r = chunks rhs"
    using splitEquation_Some by blast
  then show "\<exists>lhs rhs. normalizeArrow s = lhs @ arrow @ rhs
           \<and> l = filter (\<lambda>p. p \<noteq> []) (map trim (split_js [43] lhs))
           \<and> r = filter (\<lambda>p. p \<noteq> []) (map trim (split_js [43] rhs))
           \<and> join_js [43] (split_js [43] lhs) = lhs
           \<and> join_js [43] (split_js [43] rhs) = rhs
           \<and> list_all (\<lambda>p. 43 \<notin> set p) (split_js [43] lhs)
           \<and> list_all (\<lambda>p. 43 \<notin> set p) (split_js [43] rhs)"
    using chunks_char [of lhs] chunks_char [of rhs] by blast
qed (rule split_example_1 split_example_2)+

theorem C4_splitEquation_witness:
  "splitEquation (js ''Fe + O2 => Fe2O3'') = Some ([js ''Fe'', js ''O2''], [js ''Fe2O3''])
   \<and> (\<exists>lhs rhs. normalizeArrow (js ''Fe + O2 => Fe2O3'') = lhs @ arrow @ rhs
         \<and> [js ''Fe'', js ''O2''] = filter (\<lambda>p. p \<noteq> []) (map trim (split_js [43] lhs))
         \<and> [js ''Fe2O3''] = filter (\<lambda>p. p \<noteq> []) (map trim (split_js [43] rhs)))"
proof -
  have ev: "splitEquation (js ''Fe + O2 => Fe2O3'')
              = Some ([js ''Fe'', js ''O2''], [js ''Fe2O3''])"
    by (simp add: splitter_defs)
  from C4_splitEquation ev show ?thesis by blast
qed

lemma dash_run: "normalizeArrow (60 # replicate (Suc n) 45 @ [62]) = arrow"
proof -
  have tw: "takeWhile (\<lambda>c. c = 45) (replicate n 45 @ [62::nat]) = replicate n 45"
    by (induction n) auto
  have "arrow_match (60 # replicate (Suc n) 45 @ [62]) = Some (n + 3)"
    by (simp add: arrow_match_def run_then_gt_def tw)
  then show ?thesis by simp
qed

text \<open>
  C10. The ASCII two-way arrows are normalised too: \<^verbatim>\<open><=>\<close>, \<^verbatim>\<open><->\<close> and every
  longer run of dashes between \<^verbatim>\<open><\<close> and \<^verbatim>\<open>>\<close> become the canonical arrow, and
  \<open>splitEquation\<close> splits \<^verbatim>\<open>H2 + O2 <-> H2O\<close> into its two sides.
\<close>

theorem C10_ascii_two_way_arrows:
  "normalizeArrow (js ''<=>'') = js ''->''
   \<and> normalizeArrow (js ''<->'') = js ''->''
   \<and> normalizeArrow (js ''<--->'') = js ''->''
   \<and> (\<forall>n. normalizeArrow ([60] @ replicate (Suc n) 45 @ [62]) = js ''->'')
   \<and> splitEquation (js ''H2 + O2 <-> H2O'') = Some ([js ''H2'', js ''O2''], [js ''H2O''])"
proof -
  have "\<forall>n. normalizeArrow ([60] @ replicate (Suc n) 45 @ [62]) = js ''->''"
    using dash_run by (simp add: arrow_def js_simps)
  moreover have "normalizeArrow (js ''<=>'') = js ''->''"
    by (simp add: splitter_defs)
  moreover have "normalizeArrow (js ''<->'') = js ''->''"
    by (simp add: splitter_defs)
  moreover have "normalizeArrow (js ''<--->'') = js ''->''"
    by (simp add: splitter_defs)
  moreover have "splitEquation (js ''H2 + O2 <-> H2O'')
                   = Some ([js ''H2'', js ''O2''], [js ''H2O''])"
    by (simp add: splitter_defs)
  ultimately show ?thesis by blast
qed

section \<open>Properties of the formula evaluator\<close>

lemma map_of_map_set: "map_of (map_set m k v) = (map_of m)(k \<mapsto> v)"
  by (induction m) auto

lemma keys_map_set: "set (map fst (map_set m k v)) = insert k (set (map fst m))"
proof (induction m)
  case Nil
  then show ?case by simp
next
  case (Cons e m)
  obtain k' v' where e: "e = (k', v')" by (cases e)
  show ?case using Cons e by (cases "k' = k") auto
qed

lemma distinct_map_set: "distinct (map fst m) \<Longrightarrow> distinct (map fst (map_set m k v))"
proof (induction m)
  case Nil
  then show ?case by simp
next
  case (Cons e m)
  obtain k' v' where e: "e = (k', v')" by (cases e)
  show ?case
  proof (cases "k' = k")
    case True
    then show ?thesis using Cons.prems e by simp
  next
    case False
    have "k' \<notin> set (map fst (map_set m k v))"
      using Cons.prems e False unfolding keys_map_set by simp
    then show ?thesis using Cons e False by simp
  qed
qed



















lemma get_or0_map_set: "get_or0 (map_set m k v) e = (if e = k then v else get_or0 m e)"
  by (simp add: get_or0_def map_of_map_set)

lemma get_or0_notin: "e \<notin> set (map fst m) \<Longrightarrow> get_or0 m e = 0"
  by (induction m) (auto simp: get_or0_def)

lemma get_or0_Cons: "get_or0 ((k, n) # m) e = (if e = k then n else get_or0 m e)"
  by (simp add: get_or0_def)

lemma fold_entries_get:
  "distinct (map fst obj) \<Longrightarrow>
   get_or0 (foldl (\<lambda>out (el, n). map_set out el (get_or0 out el + n)) out obj) e
     = get_or0 out e + get_or0 obj e"
proof (induction obj arbitrary: out)
  case Nil
  then show ?case by (simp add: get_or0_def)
next
  case (Cons x obj)
  obtain k n where x: "x = (k, n)" by (cases x)
  have nk: "k \<notin> set (map fst obj)" and d: "distinct (map fst obj)"
    using Cons.prems x by auto
  show ?case
    using Cons.IH [OF d, of "map_set out k (get_or0 out k + n)"] x nk
    by (simp add: get_or0_map_set get_or0_Cons get_or0_notin)
qed

lemma fold_entries_keys:
  "set (map fst (foldl (\<lambda>out (el, n). map_set out el (get_or0 out el + n)) out obj))
     = set (map fst out) \<union> set (map fst obj)"
proof (induction obj arbitrary: out)
  case Nil
  then show ?case by simp
next
  case (Cons x obj)
  obtain k n where x: "x = (k, n)" by (cases x)
  show ?case using Cons.IH [of "map_set out k (get_or0 out k + n)"] x
    by (simp add: keys_map_set del: set_map)
qed

lemma fold_entries_distinct:
  "distinct (map fst out) \<Longrightarrow>
   distinct (map fst (foldl (\<lambda>out (el, n). map_set out el (get_or0 out el + n)) out obj))"
proof (induction obj arbitrary: out)
  case Nil
  then show ?case by simp
next
  case (Cons x obj)
  obtain k n where x: "x = (k, n)" by (cases x)
  show ?case using Cons.IH [of "map_set out k (get_or0 out k + n)"] Cons.prems x
    by (simp add: distinct_map_set)
qed

lemma map_of_sort_key:
  assumes "distinct (map fst xs)"
  shows "map_of (sort_key fst xs) = map_of xs"
proof (rule ext)
  fix e
  have d: "distinct (map fst (sort_key fst xs))" using assms by (simp add: distinct_map)
  show "map_of (sort_key fst xs) e = map_of xs e"
  proof (cases "map_of xs e")
    case None
    moreover have "(map_of (sort_key fst xs) e = None) = (map_of xs e = None)"
      by (simp add: map_of_eq_None_iff)
    ultimately show ?thesis by simp
  next
    case (Some v)
    then have "(e, v) \<in> set (sort_key fst xs)" using assms by (auto dest: map_of_SomeD)
    then show ?thesis using Some d by simp
  qed
qed

lemma map_of_get_or0: "e \<in> set (map fst m) \<Longrightarrow> map_of m e = Some (get_or0 m e)"
  by (cases "map_of m e") (auto simp: get_or0_def map_of_eq_None_iff)

lemma sumCounts_pair:
  assumes "distinct (map fst a)" and "distinct (map fst b)"
    and "e \<in> set (map fst a) \<union> set (map fst b)"
  shows "map_of (sumCounts [a, b]) e = Some (get_or0 a e + get_or0 b e)"
proof -
  let ?f = "\<lambda>out (el, n). map_set out el (get_or0 out el + n)"
  let ?out = "foldl ?f (foldl ?f [] a) b"
  have d: "distinct (map fst ?out)"
    by (intro fold_entries_distinct) simp
  have k: "e \<in> set (map fst ?out)"
    using assms(3) unfolding fold_entries_keys by simp
  have "get_or0 ?out e = get_or0 (foldl ?f [] a) e + get_or0 b e"
    using assms(2) by (rule fold_entries_get)
  also have "get_or0 (foldl ?f [] a) e = get_or0 [] e + get_or0 a e"
    using assms(1) by (rule fold_entries_get)
  finally have "get_or0 ?out e = get_or0 a e + get_or0 b e" by (simp add: get_or0_def)
  then have "map_of ?out e = Some (get_or0 a e + get_or0 b e)"
    using map_of_get_or0 [OF k] by simp
  then show ?thesis
    unfolding sumCounts_def using map_of_sort_key [OF d] by simp
qed

lemma openers_closers: "v \<in> closers \<Longrightarrow> v \<notin> openers"
  by (auto simp: openers_def closers_def)

lemma close_step_num:
  "v \<in> closers \<Longrightarrow>
   loop (grp # t # stack) (Paren v # Num mult # ts) = loop (addScaled t grp mult # stack) ts"
  by (cases grp) (auto simp: openers_closers next_num_def addScaled_def)

lemma close_step_plain:
  "v \<in> closers \<Longrightarrow> next_num ts = None \<Longrightarrow>
   loop (grp # t # stack) (Paren v # ts) = loop (addScaled t grp 1 # stack) ts"
  by (cases grp) (auto simp: openers_closers addScaled_def)

lemma close_step_root:
  "v \<in> closers \<Longrightarrow> loop [e # es] (Paren v # ts) = Inl TypeError"
  by (auto simp: openers_closers split: option.splits)

lemma dot_step_num:
  "tokensToCounts ts = Inr (Some sub) \<Longrightarrow>
   loop (t # stack) (Dot # Num N # ts) = Inr (addScaled t sub N # stack)"
  by (cases sub)
    (auto simp: tokensToCounts_def next_num_def sub_entries_def addScaled_def
      split: sum.splits list.splits if_splits)

lemma dot_step_plain: "next_num ts = None \<Longrightarrow> loop stack (Dot # ts) = loop stack ts"
  by simp

lemmas eval_defs =
  countElementsInFormula_def tokensToCounts_def tokenizeFormula_def js_simps is_ws_def
  is_bracket_def is_upper_def is_lower_def is_digit_def parseInt10_def next_num_def
  openers_def closers_def has_open_def has_close_def sub_entries_def pushCounts_def
  get_or0_def addScaled_def Let_def

lemma ex_hydrate:
  "countElementsInFormula (js ''CuSO4'' @ [183] @ js ''5H2O'')
     = Inr [(js ''Cu'', 1), (js ''H'', 10), (js ''O'', 9), (js ''S'', 1)]"
  by (simp add: eval_defs)

lemma ex_Al: "countElementsInFormula (js ''Al2(SO4)3'')
     = Inr [(js ''Al'', 2), (js ''O'', 12), (js ''S'', 3)]"
  by (simp add: eval_defs)

lemma ex_K: "countElementsInFormula (js ''K4[Fe(CN)6]'')
     = Inr [(js ''C'', 6), (js ''Fe'', 1), (js ''K'', 4), (js ''N'', 6)]"
  by (simp add: eval_defs)

lemma ex_fail_close: "countElementsInFormula (js ''H2O)'') = Inl TypeError"
  by (simp add: eval_defs)

lemma ex_fail_hydrate:
  "countElementsInFormula (js ''(CuSO4'' @ [183] @ js ''5H2O)'') = Inl TypeError"
  by (simp add: eval_defs)

lemma addScaled_get:
  "distinct (map fst g) \<Longrightarrow>
   get_or0 (addScaled t g mult) e = get_or0 t e + get_or0 g e * mult"
  unfolding addScaled_def pushCounts_def
proof (induction g arbitrary: t)
  case Nil
  then show ?case by (simp add: get_or0_def)
next
  case (Cons x g)
  obtain k n where x: "x = (k, n)" by (cases x)
  have nk: "k \<notin> set (map fst g)" and d: "distinct (map fst g)"
    using Cons.prems x by auto
  show ?case
    using Cons.IH [OF d, of "map_set t k (get_or0 t k + n * mult)"] x nk
    by (simp add: get_or0_map_set get_or0_Cons get_or0_notin)
qed

text \<open>
  C5. Where the loop meets a hydrate dot followed by a standalone integer \<open>N\<close>, with an
  accumulator on the stack and a nested evaluation of the whole remaining suffix that
  returns a mapping \<open>sub\<close>, the final stack is the stack with \<open>sub\<close> times \<open>N\<close> added
  into its top accumulator, and no further token is read; a dot not followed by an
  integer is skipped. \<open>CuSO4.5H2O\<close> (with the middle dot) evaluates as stated. The claim
  is made for every token sequence, and fails where the nested evaluation throws: the
  close of a group opened before the dot is unmatched in the suffix, so the
  bracket-balanced \<open>(CuSO4.5H2O)\<close> throws a \<open>TypeError\<close>.
\<close>

theorem C5_hydrate_dot:
  "(\<forall>t stack N ts sub. tokensToCounts ts = Inr (Some sub) \<longrightarrow>
      loop (t # stack) (Dot # Num N # ts) = Inr (addScaled t sub N # stack))
   \<and> (\<forall>t g mult e. distinct (map fst g) \<longrightarrow>
        get_or0 (addScaled t g mult) e = get_or0 t e + get_or0 g e * mult)
   \<and> (\<forall>stack ts. next_num ts = None \<longrightarrow> loop stack (Dot # ts) = loop stack ts)
   \<and> countElementsInFormula (js ''CuSO4'' @ [183] @ js ''5H2O'')
        = Inr [(js ''Cu'', 1), (js ''H'', 10), (js ''O'', 9), (js ''S'', 1)]
   \<and> countElementsInFormula (js ''(CuSO4'' @ [183] @ js ''5H2O)'') = Inl TypeError"
  using dot_step_num dot_step_plain addScaled_get ex_hydrate ex_fail_hydrate by blast

theorem C5_hydrate_dot_witness:
  "tokensToCounts [Elem (js ''H'') 2, Elem (js ''O'') 1] = Inr (Some [(js ''H'', 2), (js ''O'', 1)])
   \<and> loop [[(js ''Cu'', 1)]] [Dot, Num 5, Elem (js ''H'') 2, Elem (js ''O'') 1]
       = Inr [addScaled [(js ''Cu'', 1)] [(js ''H'', 2), (js ''O'', 1)] 5]
   \<and> get_or0 (addScaled [(js ''Cu'', 1)] [(js ''H'', 2), (js ''O'', 1)] 5) (js ''H'') = 10
   \<and> loop [[]] [Dot, Elem (js ''H'') 2] = loop [[]] [Elem (js ''H'') 2]"
proof -
  have a: "tokensToCounts [Elem (js ''H'') 2, Elem (js ''O'') 1]
             = Inr (Some [(js ''H'', 2), (js ''O'', 1)])"
    by (simp add: eval_defs)
  have b: "distinct (map fst [(js ''H'', 2::int), (js ''O'', 1)])"
    by (simp add: js_simps)
  have c: "next_num [Elem (js ''H'') 2] = None"
    by (simp add: next_num_def)
  have "get_or0 (addScaled [(js ''Cu'', 1)] [(js ''H'', 2), (js ''O'', 1)] 5) (js ''H'')
          = get_or0 [(js ''Cu'', 1)] (js ''H'') + get_or0 [(js ''H'', 2), (js ''O'', 1)] (js ''H'') * 5"
    using C5_hydrate_dot b by blast
  then have d: "get_or0 (addScaled [(js ''Cu'', 1)] [(js ''H'', 2), (js ''O'', 1)] 5) (js ''H'') = 10"
    by (simp add: get_or0_def js_simps)
  from C5_hydrate_dot a c d show ?thesis by blast
qed

text \<open>
  C6. A closing delimiter met with a group accumulator and a parent accumulator on the
  stack pops the group, multiplies its entries by the standalone integer that follows
  (by one when none follows) and adds them into the parent, whatever the bracket family;
  an opening delimiter of any family pushes an empty accumulator.
  \<open>Al2(SO4)3\<close> and \<open>K4[Fe(CN)6]\<close> evaluate as stated. The claim is made for every token
  sequence, and fails for a closing delimiter without an open group: the root accumulator
  is popped, there is no accumulator to merge into, and a non-empty root makes the merge
  throw a \<open>TypeError\<close>, as for \<open>H2O)\<close>.
\<close>

theorem C6_close_group:
  "(\<forall>v grp t stack mult ts. v \<in> closers \<longrightarrow>
      loop (grp # t # stack) (Paren v # Num mult # ts) = loop (addScaled t grp mult # stack) ts)
   \<and> (\<forall>v grp t stack ts. v \<in> closers \<and> next_num ts = None \<longrightarrow>
        loop (grp # t # stack) (Paren v # ts) = loop (addScaled t grp 1 # stack) ts)
   \<and> (\<forall>t g mult e. distinct (map fst g) \<longrightarrow>
        get_or0 (addScaled t g mult) e = get_or0 t e + get_or0 g e * mult)
   \<and> (\<forall>v e es ts. v \<in> closers \<longrightarrow> loop [e # es] (Paren v # ts) = Inl TypeError)
   \<and> (\<forall>v stack ts. v \<in> openers \<longrightarrow> loop stack (Paren v # ts) = loop ([] # stack) ts)
   \<and> closers = {js '')'', js '']'', js ''}''} \<and> openers = {js ''('', js ''['', js ''{''}
   \<and> countElementsInFormula (js ''Al2(SO4)3'')
        = Inr [(js ''Al'', 2), (js ''O'', 12), (js ''S'', 3)]
   \<and> countElementsInFormula (js ''K4[Fe(CN)6]'')
        = Inr [(js ''C'', 6), (js ''Fe'', 1), (js ''K'', 4), (js ''N'', 6)]
   \<and> countElementsInFormula (js ''H2O)'') = Inl TypeError"
proof (intro conjI allI impI)
  fix v grp t stack mult ts
  assume "v \<in> closers"
  then show "loop (grp # t # stack) (Paren v # Num mult # ts)
               = loop (addScaled t grp mult # stack) ts"
    by (rule close_step_num)
next
  fix v grp t stack ts
  assume "v \<in> closers \<and> next_num ts = None"
  then show "loop (grp # t # stack) (Paren v # ts) = loop (addScaled t grp 1 # stack) ts"
    using close_step_plain by blast
next
  fix t g :: counts and mult e
  assume "distinct (map fst g)"
  then show "get_or0 (addScaled t g mult) e = get_or0 t e + get_or0 g e * mult"
    by (rule addScaled_get)
next
  fix v e es ts
  assume "v \<in> closers"
  then show "loop [e # es] (Paren v # ts) = Inl TypeError"
    by (rule close_step_root)
next
  fix v stack ts
  assume "v \<in> openers"
  then show "loop stack (Paren v # ts) = loop ([] # stack) ts" by simp
next
  show "closers = {js '')'', js '']'', js ''}''}"
    by (simp add: closers_def js_simps)
next
  show "openers = {js ''('', js ''['', js ''{''}"
    by (simp add: openers_def js_simps)
qed (rule ex_Al ex_K ex_fail_close)+

theorem C6_close_group_witness:
  "js '']'' \<in> closers
   \<and> loop [[(js ''O'', 4)], [(js ''S'', 1)]] [Paren (js '']''), Num 3]
       = loop [addScaled [(js ''S'', 1)] [(js ''O'', 4)] 3] []
   \<and> get_or0 (addScaled [(js ''S'', 1)] [(js ''O'', 4)] 3) (js ''O'')
       = get_or0 [(js ''S'', 1)] (js ''O'') + get_or0 [(js ''O'', 4)] (js ''O'') * 3
   \<and> loop [[(js ''O'', 4)], [(js ''S'', 1)]] [Paren (js '']'')]
       = loop [addScaled [(js ''S'', 1)] [(js ''O'', 4)] 1] []
   \<and> loop [[(js ''O'', 4)]] [Paren (js '']'')] = Inl TypeError"
proof -
  have a: "js '']'' \<in> closers" by (simp add: closers_def js_simps)
  have b: "distinct (map fst [(js ''O'', 4::int)])" by simp
  have c: "next_num [] = None" by (simp add: next_num_def)
  note t1 = C6_close_group [THEN conjunct1, rule_format, OF a]
  note t2 = C6_close_group [THEN conjunct2, THEN conjunct1, rule_format, OF conjI [OF a c]]
  note t3 = C6_close_group [THEN conjunct2, THEN conjunct2, THEN conjunct1, rule_format, OF b]
  note t4 = C6_close_group [THEN conjunct2, THEN conjunct2, THEN conjunct2, THEN conjunct1,
      rule_format, OF a]
  show ?thesis
    by (intro conjI) (rule a t1 t2 t3 t4)+
qed




text \<open>
  C8. For two records \<open>a\<close> and \<open>b\<close> (lists of entries with distinct keys) and every key
  \<open>e\<close> of \<open>a\<close> or of \<open>b\<close>, \<open>sumCounts [a, b]\<close> maps \<open>e\<close> to the value of \<open>e\<close> in \<open>a\<close>
  (zero when absent) plus the value of \<open>e\<close> in \<open>b\<close> (zero when absent).
\<close>

theorem C8_sumCounts_additive:
  "distinct (map fst a) \<Longrightarrow> distinct (map fst b) \<Longrightarrow>
   e \<in> set (map fst a) \<union> set (map fst b) \<Longrightarrow>
   map_of (sumCounts [a, b]) e
     = Some ((case map_of a e of None \<Rightarrow> 0 | Some v \<Rightarrow> v)
             + (case map_of b e of None \<Rightarrow> 0 | Some v \<Rightarrow> v))"
  using sumCounts_pair [of a b e] by (simp add: get_or0_def)

theorem C8_sumCounts_additive_witness:
  "distinct (map fst [(js ''C'', 2::int), (js ''O'', 4)])
   \<and> distinct (map fst [(js ''H'', 6::int), (js ''O'', 3)])
   \<and> js ''O'' \<in> set (map fst [(js ''C'', 2::int), (js ''O'', 4)])
        \<union> set (map fst [(js ''H'', 6::int), (js ''O'', 3)])
   \<and> map_of (sumCounts [[(js ''C'', 2), (js ''O'', 4)], [(js ''H'', 6), (js ''O'', 3)]]) (js ''O'')
       = Some 7"
proof -
  have a: "distinct (map fst [(js ''C'', 2::int), (js ''O'', 4)])" by (simp add: js_simps)
  have b: "distinct (map fst [(js ''H'', 6::int), (js ''O'', 3)])" by (simp add: js_simps)
  have c: "js ''O'' \<in> set (map fst [(js ''C'', 2::int), (js ''O'', 4)])
             \<union> set (map fst [(js ''H'', 6::int), (js ''O'', 3)])" by simp
  have "map_of (sumCounts [[(js ''C'', 2), (js ''O'', 4)], [(js ''H'', 6), (js ''O'', 3)]]) (js ''O'')
          = Some ((case map_of [(js ''C'', 2), (js ''O'', 4)] (js ''O'') of
                     None \<Rightarrow> 0 | Some v \<Rightarrow> v)
                  + (case map_of [(js ''H'', 6), (js ''O'', 3)] (js ''O'') of
                       None \<Rightarrow> 0 | Some v \<Rightarrow> v))"
    using C8_sumCounts_additive [OF a b c] .
  then show ?thesis using a b c by (simp add: js_simps)
qed



section \<open>Properties of the exact rational solver\<close>

lemma gcd_loop_eq: "0 \<le> a \<Longrightarrow> 0 \<le> b \<Longrightarrow> gcd_loop a b = gcd a b"
proof (induction a b rule: gcd_loop.induct)
  case (1 a b)
  show ?case
  proof (cases "b = 0")
    case True
    then show ?thesis using "1.prems" by (simp add: gcd_loop.simps)
  next
    case False
    then have "0 \<le> a mod b" using "1.prems" by simp
    then have "gcd_loop b (a mod b) = gcd b (a mod b)"
      using "1.IH" False "1.prems" by simp
    also have "\<dots> = gcd a b" by (metis gcd.commute gcd_red_int)
    finally show ?thesis using False by (simp add: gcd_loop.simps)
  qed
qed

lemma gcd_js_eq: "gcd_js a b = (if gcd a b = 0 then 1 else gcd a b)"
  by (simp add: gcd_js_def gcd_loop_eq Let_def)

lemma gcd_js_pos: "0 < gcd_js a b"
  unfolding gcd_js_eq using gcd_ge_0_int [of a b] by (simp add: less_le)






















lemma foldl_sum: "foldl (\<lambda>s j. s + f j) a [0..<n] = a + (\<Sum>j<n. f j)"
  by (induction n arbitrary: a) (simp_all add: add.assoc)

lemma row_sum_eq: "row_sum row final = (\<Sum>j<length row. row ! j * final ! j)"
  by (simp add: row_sum_def foldl_sum)

lemma fracs_verified:
  assumes "fracsToIntegerCoeffs fv leftLen rightLen A = Some (left, right)"
  shows "list_all (\<lambda>row. (\<Sum>j<length row. row ! j * (left @ right) ! j) = 0) A"
proof -
  from assms obtain final where f: "list_all (\<lambda>row. row_sum row final = 0) A"
    and lr: "left = take leftLen final" "right = drop leftLen final"
    by (auto simp: fracsToIntegerCoeffs_def Let_def split: if_splits)
  have "left @ right = final" using lr by simp
  then show ?thesis using f by (simp add: row_sum_eq)
qed

lemma solveEquation_verified:
  assumes "solveEquation l r cf = Inr (Some (left, right))"
  shows "list_all (\<lambda>row. (\<Sum>j<length row. row ! j * (left @ right) ! j) = 0)
           (fst (buildElementMatrix l r cf))"
proof -
  from assms obtain raw where
    "fracsToIntegerCoeffs raw (length l) (length r) (fst (buildElementMatrix l r cf))
       = Some (left, right)"
    by (auto simp: solveEquation_def analyzeBalanceability_def Let_def
        split: sum.splits option.splits if_splits)
  then show ?thesis by (rule fracs_verified)
qed

lemma gcd_fold_pos:
  "0 < acc \<Longrightarrow> 0 < foldl (\<lambda>acc v. if v \<noteq> 0 then gcd_js acc v else acc) acc vs"
  by (induction vs arbitrary: acc) (simp_all add: gcd_js_pos)

lemma fracs_nonneg:
  assumes "fracsToIntegerCoeffs fv leftLen rightLen A = Some (left, right)"
  shows "list_all (\<lambda>c. 0 \<le> c) (left @ right)"
proof -
  define commonDen where "commonDen = foldl (\<lambda>cd f. lcm_js cd (den f)) 1 fv"
  define vec0 where "vec0 = map (\<lambda>f. to_int32 (num f * (commonDen div den f))) fv"
  define vec where "vec = (if length (filter (\<lambda>v. v < 0) vec0) > length (filter (\<lambda>v. v > 0) vec0)
                           then map uminus vec0 else vec0)"
  define absVec where "absVec = map abs vec"
  define g where "g = foldl (\<lambda>acc v. if v \<noteq> 0 then gcd_js acc v else acc)
                        (if hd absVec \<noteq> 0 then hd absVec else 1) absVec"
  define final where "final = map (\<lambda>v. v div g) absVec"
  have unf: "fracsToIntegerCoeffs fv leftLen rightLen A
      = (if length fv = 0 then None
         else if list_all (\<lambda>v. v = 0) vec0 then None
         else if list_all (\<lambda>row. row_sum row final = 0) A
           then Some (take leftLen final, drop leftLen final) else None)"
    unfolding fracsToIntegerCoeffs_def Let_def final_def g_def absVec_def vec_def vec0_def
      commonDen_def by (rule refl)
  from assms have ne: "fv \<noteq> []" and lr: "left @ right = final"
    unfolding unf by (auto split: if_splits)
  have "vec \<noteq> []" using ne by (simp add: vec_def vec0_def)
  then have "0 \<le> hd absVec" by (simp add: absVec_def hd_map)
  then have "0 < (if hd absVec \<noteq> 0 then hd absVec else 1)" by auto
  then have gp: "0 < g" unfolding g_def by (rule gcd_fold_pos)
  have "\<forall>v \<in> set absVec. 0 \<le> v" by (auto simp: absVec_def)
  then have "\<forall>v \<in> set absVec. 0 \<le> v div g"
    using gp by (simp add: pos_imp_zdiv_nonneg_iff)
  then show ?thesis using lr by (simp add: final_def list_all_iff)
qed

lemma solveEquation_nonneg:
  assumes "solveEquation l r cf = Inr (Some (left, right))"
  shows "list_all (\<lambda>c. 0 \<le> c) (left @ right)"
proof -
  from assms obtain raw where
    "fracsToIntegerCoeffs raw (length l) (length r) (fst (buildElementMatrix l r cf))
       = Some (left, right)"
    by (auto simp: solveEquation_def analyzeBalanceability_def Let_def
        split: sum.splits option.splits if_splits)
  then show ?thesis by (rule fracs_nonneg)
qed

lemma pc_H2: "parserCounts [72, 50] = [([72], 2)]"
  by (simp add: parserCounts_def eval_defs)

lemma pc_O2: "parserCounts [79, 50] = [([79], 2)]"
  by (simp add: parserCounts_def eval_defs)




lemma matrix_zero_coeff:
  "buildElementMatrix [js ''H2'', js ''O2''] [js ''H2''] parserCounts
     = ([[2, 0, - 2], [0, 2, 0]], [js ''H'', js ''O''])"
  by (simp add: buildElementMatrix_def js_simps pc_H2 pc_O2 get_or0_def)



lemma raw_zero_coeff:
  "solveRationalForLastColumn [[2, 0, - 2], [0, 2, 0]]
     = Inr (Some [\<lparr>num = 1, den = 1\<rparr>, \<lparr>num = 0, den = 1\<rparr>, \<lparr>num = 1, den = 1\<rparr>])"
  by code_simp

lemma ints_zero_coeff:
  "fracsToIntegerCoeffs [\<lparr>num = 1, den = 1\<rparr>, \<lparr>num = 0, den = 1\<rparr>, \<lparr>num = 1, den = 1\<rparr>]
     (Suc (Suc 0)) (Suc 0) [[2, 0, - 2], [0, 2, 0]] = Some ([1, 0], [1])"
  by code_simp





lemma solve_zero_coeff:
  "solveEquation [js ''H2'', js ''O2''] [js ''H2''] parserCounts = Inr (Some ([1, 0], [1]))"
  by (simp add: solveEquation_def analyzeBalanceability_def matrix_zero_coeff raw_zero_coeff
      ints_zero_coeff)



text \<open>
  C1, on the solver with exact fractions. Whatever \<open>solveEquation\<close> returns makes every
  row of the matrix of \<open>buildElementMatrix\<close> vanish and has no negative coefficient. A
  coefficient can be zero, against the claim: for \<open>H2 + O2 -> H2\<close> the solver returns the
  coefficients 1 and 0 on the left and 1 on the right.
\<close>

theorem C1_solution_can_hold_zero:
  "(\<forall>l r cf left right. solveEquation l r cf = Inr (Some (left, right)) \<longrightarrow>
      list_all (\<lambda>row. (\<Sum>j<length row. row ! j * (left @ right) ! j) = 0)
        (fst (buildElementMatrix l r cf))
      \<and> list_all (\<lambda>c. 0 \<le> c) (left @ right))
   \<and> solveEquation [js ''H2'', js ''O2''] [js ''H2''] parserCounts = Inr (Some ([1, 0], [1]))"
proof (intro conjI allI impI)
  fix l r cf left right
  assume a: "solveEquation l r cf = Inr (Some (left, right))"
  show "list_all (\<lambda>row. (\<Sum>j<length row. row ! j * (left @ right) ! j) = 0)
          (fst (buildElementMatrix l r cf))"
    using a by (rule solveEquation_verified)
  show "list_all (\<lambda>c. 0 \<le> c) (left @ right)"
    using a by (rule solveEquation_nonneg)
next
  show "solveEquation [js ''H2'', js ''O2''] [js ''H2''] parserCounts = Inr (Some ([1, 0], [1]))"
    by (rule solve_zero_coeff)
qed

theorem C1_solution_can_hold_zero_witness:
  "solveEquation [js ''H2'', js ''O2''] [js ''H2''] parserCounts = Inr (Some ([1, 0], [1]))
   \<and> list_all (\<lambda>row. (\<Sum>j<length row. row ! j * ([1, 0] @ [1]) ! j) = 0)
        (fst (buildElementMatrix [js ''H2'', js ''O2''] [js ''H2''] parserCounts))
   \<and> list_all (\<lambda>c. 0 \<le> c) ([1, 0] @ [1 :: int])"
proof -
  have h: "solveEquation [js ''H2'', js ''O2''] [js ''H2''] parserCounts = Inr (Some ([1, 0], [1]))"
    by (rule C1_solution_can_hold_zero [THEN conjunct2])
  show ?thesis
    using h C1_solution_can_hold_zero [THEN conjunct1, rule_format, OF h] by blast
qed



section \<open>Properties of the sign search\<close>

























end
